theory Spec2Isabelle
  imports Main "HOL-Library.Word" "HOL-Library.Multiset"
begin

section \<open>Data model of main.go\<close>

text \<open>
  The program walks a directory for \<open>.gz\<close> files, hands one task per file to a worker
  pool, and each task opens its file, wraps it in a gzip reader and decodes JSON values
  from it until the end of the stream, printing one log line per decoded item.

  The operating system, \<open>compress/gzip\<close>, \<open>encoding/json\<close> and the pool library are
  not part of the sources. What they answer is a parameter of the model (the record
  \<open>env\<close> below); what the program does with the answers is translated from main.go.
\<close>

type_synonym liberr = string
  \<comment> \<open>the message of an error value returned by a library call\<close>

record Task =
  FilePath :: string
  OutputDir :: string

record Author =
  Given :: string
  Family :: string

record CrossrefItem =
  DOI :: string
  Title :: "string list"
  ReferencesCount :: "64 word"
  Author :: "Author list"

record Result =
  Items :: "CrossrefItem list"

text \<open>
  The error values the program builds with \<open>fmt.Errorf\<close>, one constructor per format
  string, carrying the arguments of the format.
\<close>

datatype error =
    FindFailed liberr             \<comment> \<open>"failed to find GZ files: %w"\<close>
  | PoolFailed liberr             \<comment> \<open>"failed to create ants pool: %w"\<close>
  | Encountered "32 word"         \<comment> \<open>"encountered %d errors during decompression"\<close>
  | OpenFailed liberr string      \<comment> \<open>"failed to open gzip file: %w, filepath %s"\<close>
  | GzipFailed liberr string      \<comment> \<open>"failed to create gzip reader: %w, filepath %s"\<close>
  | DecodeFailed liberr string    \<comment> \<open>"failed to decode json %v:  filepath %s"\<close>

text \<open>The lines written through the logger, one constructor per \<open>Printf\<close> of the source.\<close>

datatype logmsg =
    LogFindFailed liberr                             \<comment> \<open>"Failed to find GZ files: %v"\<close>
  | LogProcessing string                             \<comment> \<open>"Processing file: %s"\<close>
  | LogErrorProcessing string error                  \<comment> \<open>"Error processing file %s: %v"\<close>
  | LogSubmitFailed string liberr                    \<comment> \<open>"Failed to submit task for file %s: %v"\<close>
  | LogItem string "string list" "64 word" string    \<comment> \<open>"DOI: %s, Title: %v, ReferencesCount: %v  file: %s"\<close>

text \<open>
  Everything the program does to the outside, in the order it does it: the calls into
  the libraries and the log lines.
\<close>

datatype event =
    EvWalk string          \<comment> \<open>\<open>filepath.Walk(root, ...)\<close>\<close>
  | EvNewPool int          \<comment> \<open>\<open>ants.NewPool(maxWorkers, ...)\<close>\<close>
  | EvSubmit string        \<comment> \<open>\<open>pool.Submit\<close> of the task of this file\<close>
  | EvLoad "32 word"       \<comment> \<open>\<open>atomic.LoadUint32(&errCount)\<close> and the value read\<close>
  | EvRelease              \<comment> \<open>the deferred \<open>pool.Release()\<close>\<close>
  | EvOpen string          \<comment> \<open>\<open>os.Open(filePath)\<close>\<close>
  | EvGzip string          \<comment> \<open>\<open>gzip.NewReader(file)\<close>\<close>
  | EvDecode string        \<comment> \<open>one call of \<open>decoder.Decode(&item)\<close>\<close>
  | EvGzipClose string     \<comment> \<open>the deferred \<open>gr.Close()\<close>\<close>
  | EvFileClose string     \<comment> \<open>the deferred \<open>file.Close()\<close>\<close>
  | EvLog logmsg           \<comment> \<open>\<open>logger.Printf\<close>\<close>

subsection \<open>The environment\<close>

text \<open>
  One call of the callback of \<open>filepath.Walk\<close>: the path, whether it is a directory,
  and the error Walk passes in (if any).
\<close>

record visit =
  vpath :: string
  visdir :: bool
  verr :: "liberr option"

text \<open>
  What successive calls of \<open>Decode\<close> on the decoder of a file return: a decoded value or
  an error. When the list is used up, \<open>Decode\<close> returns \<open>io.EOF\<close>. A stream cut in the
  middle of a value is one whose list has a \<open>Failure\<close> (\<open>unexpected EOF\<close>) at that place.
\<close>

datatype decode_outcome = Value Result | Failure liberr

type_synonym decoder = "decode_outcome list"

record gzfile =
  gzheader :: "liberr option"     \<comment> \<open>the error of \<open>gzip.NewReader\<close> on this file, if any\<close>
  jsonstream :: decoder

record env =
  walk :: "string \<Rightarrow> visit list"
    \<comment> \<open>the calls \<open>filepath.Walk\<close> makes on a root while the callback returns nil\<close>
  newPool :: "int \<Rightarrow> liberr option"
    \<comment> \<open>the error of \<open>ants.NewPool(n, ants.WithPreAlloc(true))\<close>, if any\<close>
  osOpen :: "string \<Rightarrow> liberr + gzfile"
    \<comment> \<open>\<open>os.Open\<close>\<close>

definition gzipNewReader :: "gzfile \<Rightarrow> liberr + decoder" where
  "gzipNewReader f = (case gzheader f of Some e \<Rightarrow> Inl e | None \<Rightarrow> Inr (jsonstream f))"

section \<open>findGzFiles\<close>

text \<open>
  \<open>filepath.Ext\<close>: the suffix of the path from the last dot of its last element, empty
  when that element has no dot. The scan runs from the end of the path and stops at a
  separator.
\<close>

fun ext_scan :: "string \<Rightarrow> string \<Rightarrow> string" where
  "ext_scan [] acc = []"
| "ext_scan (c # cs) acc =
     (if c = CHR ''/'' then []
      else if c = CHR ''.'' then c # acc
      else ext_scan cs (c # acc))"

definition Ext :: "string \<Rightarrow> string" where
  "Ext path = ext_scan (rev path) []"

text \<open>
  The callback of the walk: an error passed in is returned (and ends the walk); a
  regular file with extension \<open>.gz\<close> is appended to \<open>files\<close>.
\<close>

fun walkFn :: "visit list \<Rightarrow> string list \<Rightarrow> string list \<times> liberr option" where
  "walkFn [] files = (files, None)"
| "walkFn (v # vs) files =
     (case verr v of
        Some e \<Rightarrow> (files, Some e)
      | None \<Rightarrow>
          walkFn vs (if \<not> visdir v \<and> Ext (vpath v) = ''.gz'' then files @ [vpath v] else files))"

definition findGzFiles :: "env \<Rightarrow> string \<Rightarrow> string list \<times> liberr option" where
  "findGzFiles E root = walkFn (walk E root) []"

section \<open>processGzFile\<close>

text \<open>\<open>processCrossrefItem\<close>: one log line per item of the decoded value, in order.\<close>

definition processCrossrefItem :: "Result \<Rightarrow> string \<Rightarrow> event list" where
  "processCrossrefItem item filePath =
     map (\<lambda>it. EvLog (LogItem (DOI it) (Title it) (ReferencesCount it) filePath)) (Items item)"

text \<open>
  The \<open>for\<close> loop of \<open>processGzFile\<close>: decode, leave at \<open>io.EOF\<close>, return at any other
  error, otherwise process the value and count it. The result is the error returned
  (if any), the final value of the local \<open>counter\<close>, and the events of the loop.
\<close>

fun decodeLoop :: "string \<Rightarrow> decoder \<Rightarrow> 64 word \<Rightarrow> error option \<times> 64 word \<times> event list" where
  "decodeLoop filePath [] counter = (None, counter, [EvDecode filePath])"
| "decodeLoop filePath (Failure e # dec) counter =
     (Some (DecodeFailed e filePath), counter, [EvDecode filePath])"
| "decodeLoop filePath (Value item # dec) counter =
     (case decodeLoop filePath dec (counter + 1) of
        (err, c, evs) \<Rightarrow> (err, c, EvDecode filePath # processCrossrefItem item filePath @ evs))"

text \<open>
  \<open>processGzFile\<close>: the error returned (\<open>None\<close> is Go's nil) and the events, the deferred
  closes last and in reverse order of their registration.
\<close>

definition processGzFile :: "env \<Rightarrow> Task \<Rightarrow> error option \<times> event list" where
  "processGzFile E task =
     (let filePath = FilePath task in
      case osOpen E filePath of
        Inl e \<Rightarrow> (Some (OpenFailed e filePath), [EvOpen filePath])
      | Inr file \<Rightarrow>
          (case gzipNewReader file of
             Inl e \<Rightarrow>
               (Some (GzipFailed e filePath),
                [EvOpen filePath, EvGzip filePath, EvFileClose filePath])
           | Inr dec \<Rightarrow>
               (case decodeLoop filePath dec 0 of
                  (err, counter, evs) \<Rightarrow>
                    (err, [EvOpen filePath, EvGzip filePath] @ evs
                          @ [EvGzipClose filePath, EvFileClose filePath]))))"

section \<open>concurrentDecompressMultipleFiles\<close>

text \<open>
  The coordinator runs beside the tasks it has handed to the pool, so one call is not a
  function of its arguments: it is a set of runs, one per schedule. A state holds the
  coordinator's program point and locals, the tasks the pool has accepted and that have
  not finished, the shared counter \<open>errCount\<close> (a \<open>uint32\<close>), and the events so far.
\<close>

datatype phase =
    Submitting                 \<comment> \<open>in the \<open>for ... range files\<close> loop\<close>
  | Checked                    \<comment> \<open>the condition \<open>LoadUint32(&errCount) > 0\<close> was true\<close>
  | Releasing "error option"   \<comment> \<open>return value fixed, the deferred \<open>pool.Release()\<close> pending\<close>
  | Returned "error option"    \<comment> \<open>the function has returned this value\<close>

record state =
  phase :: phase
  outputDir :: string
  capacity :: int
  remaining :: "string list"
  inflight :: "Task list"
  errCount :: "32 word"
  trace :: "event list"

text \<open>
  Lines 77 to 90: discovery, then the pool. Either failure returns at once; no
  \<open>defer\<close> is registered on those two paths.
\<close>

definition coordinator_start :: "env \<Rightarrow> string \<Rightarrow> string \<Rightarrow> int \<Rightarrow> state" where
  "coordinator_start E inputDir outDir maxWorkers =
     (case findGzFiles E inputDir of
        (files, Some e) \<Rightarrow>
          \<lparr>phase = Returned (Some (FindFailed e)), outputDir = outDir, capacity = maxWorkers,
           remaining = [], inflight = [], errCount = 0,
           trace = [EvWalk inputDir, EvLog (LogFindFailed e)]\<rparr>
      | (files, None) \<Rightarrow>
          (case newPool E maxWorkers of
             Some e \<Rightarrow>
               \<lparr>phase = Returned (Some (PoolFailed e)), outputDir = outDir,
                capacity = maxWorkers, remaining = [], inflight = [], errCount = 0,
                trace = [EvWalk inputDir, EvNewPool maxWorkers]\<rparr>
           | None \<Rightarrow>
               \<lparr>phase = Submitting, outputDir = outDir, capacity = maxWorkers,
                remaining = files, inflight = [], errCount = 0,
                trace = [EvWalk inputDir, EvNewPool maxWorkers]\<rparr>))"

text \<open>
  The closure handed to \<open>pool.Submit\<close>, run by a worker: process the file; on an error
  log it and add one to the counter.
\<close>

definition runTask :: "env \<Rightarrow> Task \<Rightarrow> state \<Rightarrow> state" where
  "runTask E task s =
     (case processGzFile E task of
        (None, evs) \<Rightarrow> s\<lparr>trace := trace s @ evs\<rparr>
      | (Some err, evs) \<Rightarrow>
          s\<lparr>trace := trace s @ evs @ [EvLog (LogErrorProcessing (FilePath task) err)],
            errCount := errCount s + 1\<rparr>)"

text \<open>
  Modelled from the spec: the worker pool (package \<open>ants\<close>, which the sources import and
  do not contain). \<open>Submit\<close> either hands the closure to a worker, which runs it
  asynchronously, and returns at once, or fails with an error; at most \<open>capacity\<close> tasks
  are with the workers at a time. Which of the two happens is the schedule's choice
  (\<open>Accept\<close> or \<open>Reject\<close>), so the runs cover every pool. Whether \<open>Release\<close> waits for
  the running tasks is left open: the step is possible in any state, which includes the
  runs of a pool that waits.

  The steps of a run:
  \<^item> \<open>Accept\<close>: one iteration of the loop whose \<open>Submit\<close> succeeds;
  \<^item> \<open>Reject e\<close>: one iteration whose \<open>Submit\<close> returns the error \<open>e\<close>;
  \<^item> \<open>Finish i\<close>: the worker holding the \<open>i\<close>-th running task runs its closure to the end;
  \<^item> \<open>Check\<close>: the loop is over and the coordinator evaluates the condition of line 106;
  \<^item> \<open>Report\<close>: the second load, inside the error message of line 107;
  \<^item> \<open>Release\<close>: the deferred \<open>pool.Release()\<close>, after which the function has returned.

  \<open>Reject\<close> is possible whenever a file is left, also where a pool created as on line
  86 would accept (such a pool blocks while it is full and fails only once it is closed):
  the statements over all runs then hold for every pool, and no run that shows a claim
  to fail uses a rejection. \<open>Accept\<close> writes the line of line 93 together with the
  \<open>Submit\<close>, when a worker is free, while the code writes it before \<open>Submit\<close> may
  block; the order of the log lines of different files is therefore not that of the code,
  and no statement below is about it.

  A worker's run of a closure is one step. The closures share nothing but the logger and
  \<open>errCount\<close>, which a closure writes once, at its end, with an atomic add; so the
  values the counter takes and the order of its changes against the coordinator's steps
  are those of the finer interleavings. A worker may still finish a task after the
  coordinator has returned.
\<close>

datatype action = Accept | Reject liberr | Finish nat | Check | Report | Release

definition submit_ok :: "state \<Rightarrow> state option" where
  "submit_ok s =
     (case remaining s of
        [] \<Rightarrow> None
      | file # rest \<Rightarrow>
          if phase s = Submitting \<and> int (length (inflight s)) < capacity s
          then Some (s\<lparr>remaining := rest,
                       inflight := inflight s @ [\<lparr>FilePath = file, OutputDir = outputDir s\<rparr>],
                       trace := trace s @ [EvLog (LogProcessing file), EvSubmit file]\<rparr>)
          else None)"

definition submit_failed :: "liberr \<Rightarrow> state \<Rightarrow> state option" where
  "submit_failed e s =
     (case remaining s of
        [] \<Rightarrow> None
      | file # rest \<Rightarrow>
          if phase s = Submitting
          then Some (s\<lparr>remaining := rest,
                       trace := trace s @ [EvLog (LogProcessing file), EvSubmit file,
                                           EvLog (LogSubmitFailed file e)],
                       errCount := errCount s + 1\<rparr>)
          else None)"

definition finish :: "env \<Rightarrow> nat \<Rightarrow> state \<Rightarrow> state option" where
  "finish E i s =
     (if i < length (inflight s)
      then Some (runTask E (inflight s ! i)
                   (s\<lparr>inflight := take i (inflight s) @ drop (Suc i) (inflight s)\<rparr>))
      else None)"

definition check_count :: "state \<Rightarrow> state option" where
  "check_count s =
     (if phase s = Submitting \<and> remaining s = []
      then Some (s\<lparr>phase := (if 0 < errCount s then Checked else Releasing None),
                   trace := trace s @ [EvLoad (errCount s)]\<rparr>)
      else None)"

definition report_count :: "state \<Rightarrow> state option" where
  "report_count s =
     (if phase s = Checked
      then Some (s\<lparr>phase := Releasing (Some (Encountered (errCount s))),
                   trace := trace s @ [EvLoad (errCount s)]\<rparr>)
      else None)"

definition release_pool :: "state \<Rightarrow> state option" where
  "release_pool s =
     (case phase s of
        Releasing r \<Rightarrow> Some (s\<lparr>phase := Returned r, trace := trace s @ [EvRelease]\<rparr>)
      | _ \<Rightarrow> None)"

fun step :: "env \<Rightarrow> action \<Rightarrow> state \<Rightarrow> state option" where
  "step E Accept s = submit_ok s"
| "step E (Reject e) s = submit_failed e s"
| "step E (Finish i) s = finish E i s"
| "step E Check s = check_count s"
| "step E Report s = report_count s"
| "step E Release s = release_pool s"

fun exec :: "env \<Rightarrow> action list \<Rightarrow> state \<Rightarrow> state option" where
  "exec E [] s = Some s"
| "exec E (a # as) s = (case step E a s of None \<Rightarrow> None | Some s' \<Rightarrow> exec E as s')"

text \<open>
  One call of the coordinator under a schedule: \<open>None\<close> when the schedule asks for a step
  that is not possible, otherwise the state reached.
\<close>

definition concurrentDecompressMultipleFiles ::
  "env \<Rightarrow> string \<Rightarrow> string \<Rightarrow> int \<Rightarrow> action list \<Rightarrow> state option" where
  "concurrentDecompressMultipleFiles E inputDir outDir maxWorkers sched =
     exec E sched (coordinator_start E inputDir outDir maxWorkers)"

section \<open>Observations on traces and states\<close>

text \<open>The calls of the record sink: the log lines of \<open>processCrossrefItem\<close>.\<close>

fun is_sink_call :: "event \<Rightarrow> bool" where
  "is_sink_call (EvLog (LogItem d t r f)) = True"
| "is_sink_call _ = False"

definition sink_calls :: "event list \<Rightarrow> event list" where
  "sink_calls evs = filter is_sink_call evs"

fun is_decode :: "event \<Rightarrow> bool" where
  "is_decode (EvDecode f) = True"
| "is_decode _ = False"

text \<open>The files \<open>Submit\<close> was called for, the files it failed for, the files opened.\<close>

fun submit_of :: "event \<Rightarrow> string list" where
  "submit_of (EvSubmit f) = [f]"
| "submit_of _ = []"

fun reject_of :: "event \<Rightarrow> string list" where
  "reject_of (EvLog (LogSubmitFailed f e)) = [f]"
| "reject_of _ = []"

fun open_of :: "event \<Rightarrow> string list" where
  "open_of (EvOpen f) = [f]"
| "open_of _ = []"

definition submitted :: "event list \<Rightarrow> string list" where
  "submitted evs = concat (map submit_of evs)"

definition rejected :: "event list \<Rightarrow> string list" where
  "rejected evs = concat (map reject_of evs)"

definition opened :: "event list \<Rightarrow> string list" where
  "opened evs = concat (map open_of evs)"

text \<open>
  A corrupted file: it fails to open, its gzip header is refused, or a \<open>Decode\<close> on its
  stream fails.
\<close>

fun has_failure :: "decoder \<Rightarrow> bool" where
  "has_failure [] = False"
| "has_failure (Failure e # ds) = True"
| "has_failure (Value r # ds) = has_failure ds"

definition corrupted :: "env \<Rightarrow> string \<Rightarrow> bool" where
  "corrupted E path =
     (case osOpen E path of
        Inl e \<Rightarrow> True
      | Inr f \<Rightarrow> (case gzheader f of Some e \<Rightarrow> True | None \<Rightarrow> has_failure (jsonstream f)))"

text \<open>What the coordinator reports to its caller, once the return value is fixed.\<close>

definition reported :: "state \<Rightarrow> error option option" where
  "reported s =
     (case phase s of
        Releasing r \<Rightarrow> Some r
      | Returned r \<Rightarrow> Some r
      | _ \<Rightarrow> None)"

text \<open>The records of a list of decoded values, in stream order.\<close>

definition records_of :: "Result list \<Rightarrow> CrossrefItem list" where
  "records_of bs = concat (map Items bs)"

section \<open>An example environment\<close>

text \<open>
  A small file system for the concrete runs below. Under \<open>in\<close>: \<open>a.gz\<close> with three
  records in two values, \<open>b.gz\<close> with one value of zero records, \<open>c.gz\<close> cut in the
  middle of its second value, \<open>d.gz\<close> with a bad gzip header, and a file that is not
  a \<open>.gz\<close>. Under \<open>ok\<close> one good file, under \<open>bad\<close> one cut file. Any other root
  cannot be walked. The pool refuses a size that is not positive, as \<open>ants.NewPool\<close> with
  \<open>WithPreAlloc(true)\<close> does.
\<close>

definition ex_item :: "string \<Rightarrow> CrossrefItem" where
  "ex_item d = \<lparr>DOI = d, Title = [''t''], ReferencesCount = 7, Author = []\<rparr>"

definition ex_good :: gzfile where
  "ex_good = \<lparr>gzheader = None,
              jsonstream = [Value \<lparr>Items = [ex_item ''1'', ex_item ''2'']\<rparr>,
                            Value \<lparr>Items = [ex_item ''3'']\<rparr>]\<rparr>"

definition ex_empty :: gzfile where
  "ex_empty = \<lparr>gzheader = None, jsonstream = [Value \<lparr>Items = []\<rparr>]\<rparr>"

definition ex_cut :: gzfile where
  "ex_cut = \<lparr>gzheader = None,
             jsonstream = [Value \<lparr>Items = [ex_item ''4'']\<rparr>, Failure ''unexpected EOF'']\<rparr>"

definition ex_badheader :: gzfile where
  "ex_badheader = \<lparr>gzheader = Some ''gzip: invalid header'', jsonstream = []\<rparr>"

definition ex_open :: "string \<Rightarrow> liberr + gzfile" where
  "ex_open path =
     (if path = ''in/a.gz'' then Inr ex_good
      else if path = ''in/b.gz'' then Inr ex_empty
      else if path = ''in/c.gz'' then Inr ex_cut
      else if path = ''in/d.gz'' then Inr ex_badheader
      else if path = ''ok/a.gz'' then Inr ex_good
      else if path = ''bad/c.gz'' then Inr ex_cut
      else Inl ''no such file or directory'')"

definition ex_entry :: "string \<Rightarrow> bool \<Rightarrow> visit" where
  "ex_entry p d = \<lparr>vpath = p, visdir = d, verr = None\<rparr>"

definition ex_walk :: "string \<Rightarrow> visit list" where
  "ex_walk root =
     (if root = ''in''
      then [ex_entry ''in'' True, ex_entry ''in/a.gz'' False, ex_entry ''in/b.gz'' False,
            ex_entry ''in/c.gz'' False, ex_entry ''in/d.gz'' False,
            ex_entry ''in/notes.txt'' False]
      else if root = ''ok'' then [ex_entry ''ok'' True, ex_entry ''ok/a.gz'' False]
      else if root = ''bad'' then [ex_entry ''bad'' True, ex_entry ''bad/c.gz'' False]
      else [\<lparr>vpath = root, visdir = False, verr = Some ''no such file or directory''\<rparr>])"

definition ex_newPool :: "int \<Rightarrow> liberr option" where
  "ex_newPool n = (if n \<le> 0 then Some ''invalid pool size'' else None)"

definition ex_env :: env where
  "ex_env = \<lparr>walk = ex_walk, newPool = ex_newPool, osOpen = ex_open\<rparr>"

definition ex_task :: "string \<Rightarrow> Task" where
  "ex_task p = \<lparr>FilePath = p, OutputDir = ''out''\<rparr>"

text \<open>
  The return value of lines 106 to 109 when both loads read the same value \<open>c\<close>.
\<close>

definition verdict :: "32 word \<Rightarrow> error option" where
  "verdict c = (if c = 0 then None else Some (Encountered c))"

text \<open>States of the concrete runs: an idle one, and two reached on the files of \<open>in\<close>.\<close>

definition ex_state :: state where
  "ex_state = \<lparr>phase = Submitting, outputDir = ''out'', capacity = 2, remaining = [],
               inflight = [], errCount = 0, trace = []\<rparr>"

definition ex_looping :: state where
  "ex_looping = \<lparr>phase = Submitting, outputDir = ''out'', capacity = 2,
                 remaining = [''in/b.gz'', ''in/c.gz'', ''in/d.gz''],
                 inflight = [\<lparr>FilePath = ''in/a.gz'', OutputDir = ''out''\<rparr>], errCount = 0,
                 trace = [EvWalk ''in'', EvNewPool 2,
                          EvLog (LogProcessing ''in/a.gz''), EvSubmit ''in/a.gz'']\<rparr>"

definition ex_counted :: state where
  "ex_counted = \<lparr>phase = Submitting, outputDir = ''out'', capacity = 2,
                 remaining = [''in/c.gz'', ''in/d.gz''],
                 inflight = [\<lparr>FilePath = ''in/b.gz'', OutputDir = ''out''\<rparr>], errCount = 1,
                 trace = [EvWalk ''in'', EvNewPool 2,
                          EvLog (LogProcessing ''in/a.gz''), EvSubmit ''in/a.gz'',
                          EvLog (LogSubmitFailed ''in/a.gz'' ''pool closed''),
                          EvLog (LogProcessing ''in/b.gz''), EvSubmit ''in/b.gz'']\<rparr>"

section \<open>Lemmas on the loop of processGzFile\<close>

lemma decodeLoop_values:
  "decodeLoop p (map Value bs) c =
     (None, c + of_nat (length bs),
      concat (map (\<lambda>b. EvDecode p # processCrossrefItem b p) bs) @ [EvDecode p])"
  by (induction bs arbitrary: c) (simp_all add: algebra_simps)

lemma decodeLoop_failure:
  "decodeLoop p (map Value bs @ Failure e # rest) c =
     (Some (DecodeFailed e p), c + of_nat (length bs),
      concat (map (\<lambda>b. EvDecode p # processCrossrefItem b p) bs) @ [EvDecode p])"
  by (induction bs arbitrary: c) (simp_all add: algebra_simps)

lemma sink_calls_item: "sink_calls (processCrossrefItem b p) = processCrossrefItem b p"
  unfolding sink_calls_def processCrossrefItem_def by (induction "Items b") auto

lemma filter_sink_item: "filter is_sink_call (processCrossrefItem b p) = processCrossrefItem b p"
  using sink_calls_item by (simp add: sink_calls_def)

lemma sink_calls_batches:
  "sink_calls (concat (map (\<lambda>b. EvDecode p # processCrossrefItem b p) bs)) =
     map (\<lambda>it. EvLog (LogItem (DOI it) (Title it) (ReferencesCount it) p)) (records_of bs)"
proof (induction bs)
  case Nil
  show ?case by (simp add: sink_calls_def records_of_def)
next
  case (Cons b bs)
  have "sink_calls (concat (map (\<lambda>b. EvDecode p # processCrossrefItem b p) (b # bs))) =
          processCrossrefItem b p
          @ sink_calls (concat (map (\<lambda>b. EvDecode p # processCrossrefItem b p) bs))"
    by (simp add: sink_calls_def filter_sink_item)
  also have "\<dots> = map (\<lambda>it. EvLog (LogItem (DOI it) (Title it) (ReferencesCount it) p))
                     (records_of (b # bs))"
    using Cons.IH by (simp add: records_of_def processCrossrefItem_def)
  finally show ?case .
qed

lemma decodeLoop_error: "fst (decodeLoop p ds c) = None \<longleftrightarrow> \<not> has_failure ds"
  by (induction p ds c rule: decodeLoop.induct) (auto split: prod.splits)

lemma decodeLoop_quiet:
  "submitted (snd (snd (decodeLoop p ds c))) = [] \<and>
   rejected (snd (snd (decodeLoop p ds c))) = [] \<and>
   opened (snd (snd (decodeLoop p ds c))) = []"
  by (induction p ds c rule: decodeLoop.induct)
     (auto simp add: submitted_def rejected_def opened_def processCrossrefItem_def o_def
        split: prod.splits)

lemma processGzFile_error: "fst (processGzFile E t) = None \<longleftrightarrow> \<not> corrupted E (FilePath t)"
proof (cases "osOpen E (FilePath t)")
  case (Inl e)
  then show ?thesis by (simp add: Let_def processGzFile_def corrupted_def)
next
  case (Inr f)
  show ?thesis
  proof (cases "gzheader f")
    case None
    with Inr decodeLoop_error [of "FilePath t" "jsonstream f" 0] show ?thesis
      by (auto simp add: Let_def processGzFile_def corrupted_def gzipNewReader_def split: prod.splits)
  next
    case (Some e)
    with Inr show ?thesis by (simp add: Let_def processGzFile_def corrupted_def gzipNewReader_def)
  qed
qed

lemma processGzFile_quiet:
  "submitted (snd (processGzFile E t)) = [] \<and> rejected (snd (processGzFile E t)) = [] \<and>
   opened (snd (processGzFile E t)) = [FilePath t]"
proof (cases "osOpen E (FilePath t)")
  case (Inl e)
  then show ?thesis
    by (simp add: Let_def processGzFile_def submitted_def rejected_def opened_def)
next
  case (Inr f)
  show ?thesis
  proof (cases "gzheader f")
    case None
    with Inr decodeLoop_quiet [of "FilePath t" "jsonstream f" 0] show ?thesis
      by (simp add: Let_def processGzFile_def gzipNewReader_def submitted_def rejected_def opened_def
            split: prod.splits)
  next
    case (Some e)
    with Inr show ?thesis
      by (simp add: Let_def processGzFile_def gzipNewReader_def submitted_def rejected_def opened_def)
  qed
qed

lemma processGzFile_values:
  assumes "osOpen E (FilePath t) = Inr f" and "gzheader f = None"
    and "jsonstream f = map Value bs"
  shows "processGzFile E t =
     (None, [EvOpen (FilePath t), EvGzip (FilePath t)]
            @ concat (map (\<lambda>b. EvDecode (FilePath t) # processCrossrefItem b (FilePath t)) bs)
            @ [EvDecode (FilePath t), EvGzipClose (FilePath t), EvFileClose (FilePath t)])"
  using assms by (simp add: Let_def processGzFile_def gzipNewReader_def decodeLoop_values)

lemma processGzFile_failure:
  assumes "osOpen E (FilePath t) = Inr f" and "gzheader f = None"
    and "jsonstream f = map Value bs @ Failure e # rest"
  shows "processGzFile E t =
     (Some (DecodeFailed e (FilePath t)),
      [EvOpen (FilePath t), EvGzip (FilePath t)]
      @ concat (map (\<lambda>b. EvDecode (FilePath t) # processCrossrefItem b (FilePath t)) bs)
      @ [EvDecode (FilePath t), EvGzipClose (FilePath t), EvFileClose (FilePath t)])"
  using assms by (simp add: Let_def processGzFile_def gzipNewReader_def decodeLoop_failure)

section \<open>Lemmas on the steps of a run\<close>

lemma submitted_append: "submitted (xs @ ys) = submitted xs @ submitted ys"
  by (simp add: submitted_def)

lemma rejected_append: "rejected (xs @ ys) = rejected xs @ rejected ys"
  by (simp add: rejected_def)

lemma opened_append: "opened (xs @ ys) = opened xs @ opened ys"
  by (simp add: opened_def)

lemma runTask_fields:
  "phase (runTask E t s) = phase s \<and> remaining (runTask E t s) = remaining s \<and>
   inflight (runTask E t s) = inflight s \<and> capacity (runTask E t s) = capacity s \<and>
   outputDir (runTask E t s) = outputDir s"
  by (simp add: runTask_def split: prod.splits option.splits)

lemma runTask_trace:
  "submitted (trace (runTask E t s)) = submitted (trace s) \<and>
   rejected (trace (runTask E t s)) = rejected (trace s) \<and>
   opened (trace (runTask E t s)) = opened (trace s) @ [FilePath t]"
proof (cases "processGzFile E t")
  case (Pair err evs)
  with processGzFile_quiet [of E t]
  have q: "submitted evs = []" "rejected evs = []" "opened evs = [FilePath t]"
    by simp_all
  have l: "submitted [EvLog (LogErrorProcessing p x)] = []"
    "rejected [EvLog (LogErrorProcessing p x)] = []"
    "opened [EvLog (LogErrorProcessing p x)] = []" for p x
    by (simp_all add: submitted_def rejected_def opened_def)
  show ?thesis
    using Pair q l
    by (cases err) (simp_all add: runTask_def submitted_append rejected_append opened_append)
qed

lemma runTask_errCount:
  "errCount (runTask E t s) = errCount s + (if corrupted E (FilePath t) then 1 else 0)"
proof (cases "processGzFile E t")
  case (Pair err evs)
  with processGzFile_error [of E t] show ?thesis
    by (cases err) (auto simp add: runTask_def)
qed

lemma unat_inc_le: "unat (x + 1 :: 32 word) \<le> unat x + 1"
  by (simp add: unat_word_ariths)

lemma length_remove_nth:
  "i < length xs \<Longrightarrow> Suc (length (take i xs @ drop (Suc i) xs)) = length xs"
  by simp

lemma mset_remove_nth:
  assumes "i < length xs"
  shows "mset (map f (take i xs @ drop (Suc i) xs)) + {#f (xs ! i)#} = mset (map f xs)"
proof -
  have "xs = take i xs @ xs ! i # drop (Suc i) xs"
    using assms by (rule id_take_nth_drop)
  then have "mset (map f xs) = mset (map f (take i xs @ xs ! i # drop (Suc i) xs))"
    by simp
  then show ?thesis by simp
qed

text \<open>The counter never runs ahead of the submissions.\<close>

lemma step_bound:
  assumes "step E a s = Some s'"
    and "unat (errCount s) + length (inflight s) \<le> length (submitted (trace s))"
  shows "unat (errCount s') + length (inflight s') \<le> length (submitted (trace s'))"
proof (cases a)
  case Accept
  with assms show ?thesis
    by (auto simp add: submit_ok_def submitted_def split: list.splits if_splits)
next
  case (Reject e)
  with assms unat_inc_le [of "errCount s"] show ?thesis
    by (auto simp add: submit_failed_def submitted_def split: list.splits if_splits)
next
  case (Finish i)
  with assms have i: "i < length (inflight s)"
    and s': "s' = runTask E (inflight s ! i)
                    (s\<lparr>inflight := take i (inflight s) @ drop (Suc i) (inflight s)\<rparr>)"
    by (auto simp add: finish_def split: if_splits)
  let ?s = "s\<lparr>inflight := take i (inflight s) @ drop (Suc i) (inflight s)\<rparr>"
  have "unat (errCount s') \<le> unat (errCount s) + 1"
    using runTask_errCount [of E "inflight s ! i" ?s] unat_inc_le [of "errCount s"]
    by (simp add: s')
  moreover have "Suc (length (inflight s')) = length (inflight s)"
    using length_remove_nth [OF i] runTask_fields [of E "inflight s ! i" ?s]
    by (simp add: s')
  moreover have "submitted (trace s') = submitted (trace s)"
    using runTask_trace [of E "inflight s ! i" ?s] by (simp add: s')
  ultimately show ?thesis using assms(2) by simp
next
  case Check
  with assms show ?thesis
    by (auto simp add: check_count_def submitted_def split: if_splits)
next
  case Report
  with assms show ?thesis
    by (auto simp add: report_count_def submitted_def split: if_splits)
next
  case Release
  with assms show ?thesis
    by (auto simp add: release_pool_def submitted_def split: phase.splits)
qed

lemma exec_bound:
  assumes "exec E sched s = Some s'"
    and "unat (errCount s) + length (inflight s) \<le> length (submitted (trace s))"
  shows "unat (errCount s') + length (inflight s') \<le> length (submitted (trace s'))"
  using assms
proof (induction sched arbitrary: s)
  case Nil
  then show ?case by simp
next
  case (Cons a sched)
  then obtain s1 where a: "step E a s = Some s1" and r: "exec E sched s1 = Some s'"
    by (auto split: option.splits)
  from step_bound [OF a Cons.prems(2)] have "unat (errCount s1) + length (inflight s1) \<le> length (submitted (trace s1))" .
  with r show ?case by (rule Cons.IH)
qed

lemma coordinator_start_zero:
  "errCount (coordinator_start E inputDir outDir maxWorkers) = 0 \<and>
   inflight (coordinator_start E inputDir outDir maxWorkers) = []"
  by (simp add: coordinator_start_def split: prod.splits option.splits)

lemma exec_append:
  "exec E (xs @ ys) s = (case exec E xs s of None \<Rightarrow> None | Some s' \<Rightarrow> exec E ys s')"
  by (induction xs arbitrary: s) (simp_all split: option.splits)

lemma coordinator_start_ok:
  assumes "findGzFiles E inputDir = (files, None)" and "newPool E maxWorkers = None"
  shows "coordinator_start E inputDir outDir maxWorkers =
           \<lparr>phase = Submitting, outputDir = outDir, capacity = maxWorkers,
            remaining = files, inflight = [], errCount = 0,
            trace = [EvWalk inputDir, EvNewPool maxWorkers]\<rparr>"
  using assms by (simp add: coordinator_start_def)

text \<open>The loop goes through the files in discovery order and drops none.\<close>

lemma step_order:
  assumes "step E a s = Some s'"
  shows "submitted (trace s') @ remaining s' = submitted (trace s) @ remaining s"
proof (cases a)
  case Accept
  with assms show ?thesis
    by (auto simp add: submit_ok_def submitted_def split: list.splits if_splits)
next
  case (Reject e)
  with assms show ?thesis
    by (auto simp add: submit_failed_def submitted_def split: list.splits if_splits)
next
  case (Finish i)
  with assms have s': "s' = runTask E (inflight s ! i)
                    (s\<lparr>inflight := take i (inflight s) @ drop (Suc i) (inflight s)\<rparr>)"
    by (auto simp add: finish_def split: if_splits)
  let ?s = "s\<lparr>inflight := take i (inflight s) @ drop (Suc i) (inflight s)\<rparr>"
  show ?thesis
    using runTask_trace [of E "inflight s ! i" ?s] runTask_fields [of E "inflight s ! i" ?s]
    by (simp add: s')
next
  case Check
  with assms show ?thesis
    by (auto simp add: check_count_def submitted_def split: if_splits)
next
  case Report
  with assms show ?thesis
    by (auto simp add: report_count_def submitted_def split: if_splits)
next
  case Release
  with assms show ?thesis
    by (auto simp add: release_pool_def submitted_def split: phase.splits)
qed

lemma exec_order:
  assumes "exec E sched s = Some s'"
  shows "submitted (trace s') @ remaining s' = submitted (trace s) @ remaining s"
  using assms
proof (induction sched arbitrary: s)
  case Nil
  then show ?case by simp
next
  case (Cons a sched)
  then obtain s1 where a: "step E a s = Some s1" and r: "exec E sched s1 = Some s'"
    by (auto split: option.splits)
  from step_order [OF a] Cons.IH [OF r] show ?case by simp
qed

text \<open>A state of a function that has returned and has no task running has no step.\<close>

lemma returned_stuck:
  assumes "phase s = Returned r" and "remaining s = []" and "inflight s = []"
  shows "step E a s = None"
  using assms
  by (cases a)
     (simp_all add: submit_ok_def submit_failed_def finish_def check_count_def
        report_count_def release_pool_def)

lemma returned_run:
  assumes "phase s = Returned r" and "remaining s = []" and "inflight s = []"
  shows "exec E sched s = (if sched = [] then Some s else None)"
  using returned_stuck [OF assms] by (cases sched) simp_all

text \<open>
  Every discovered file is in exactly one place (opened by a task that has run, with a
  worker, rejected, or still to be submitted), and the counter is the number of
  rejections plus the number of corrupted files among those opened.
\<close>

lemma step_tally:
  assumes "step E a s = Some s'"
    and "mset (opened (trace s)) + mset (map FilePath (inflight s))
         + mset (rejected (trace s)) + mset (remaining s) = M"
    and "errCount s =
         of_nat (length (rejected (trace s)) + length (filter (corrupted E) (opened (trace s))))"
  shows "mset (opened (trace s')) + mset (map FilePath (inflight s'))
         + mset (rejected (trace s')) + mset (remaining s') = M \<and>
         errCount s' =
         of_nat (length (rejected (trace s')) + length (filter (corrupted E) (opened (trace s'))))"
proof (cases a)
  case Accept
  with assms show ?thesis
    by (auto simp add: submit_ok_def opened_def rejected_def split: list.splits if_splits)
next
  case (Reject e)
  with assms show ?thesis
    by (auto simp add: submit_failed_def opened_def rejected_def split: list.splits if_splits)
next
  case (Finish i)
  with assms have i: "i < length (inflight s)"
    and s': "s' = runTask E (inflight s ! i)
                    (s\<lparr>inflight := take i (inflight s) @ drop (Suc i) (inflight s)\<rparr>)"
    by (auto simp add: finish_def split: if_splits)
  let ?s = "s\<lparr>inflight := take i (inflight s) @ drop (Suc i) (inflight s)\<rparr>"
  let ?t = "inflight s ! i"
  have tr: "rejected (trace s') = rejected (trace s)"
    "opened (trace s') = opened (trace s) @ [FilePath ?t]"
    using runTask_trace [of E ?t ?s] by (simp_all add: s')
  have fl: "inflight s' = take i (inflight s) @ drop (Suc i) (inflight s)"
    "remaining s' = remaining s"
    using runTask_fields [of E ?t ?s] by (simp_all add: s')
  have ec: "errCount s' = errCount s + (if corrupted E (FilePath ?t) then 1 else 0)"
    using runTask_errCount [of E ?t ?s] by (simp add: s')
  have "mset (opened (trace s')) + mset (map FilePath (inflight s'))
          + mset (rejected (trace s')) + mset (remaining s') =
        mset (opened (trace s))
          + (mset (map FilePath (take i (inflight s) @ drop (Suc i) (inflight s)))
             + {#FilePath ?t#})
          + mset (rejected (trace s)) + mset (remaining s)"
    by (simp add: tr fl)
  also have "\<dots> = M"
    using assms(2) by (simp only: mset_remove_nth [OF i])
  finally have m: "mset (opened (trace s')) + mset (map FilePath (inflight s'))
                   + mset (rejected (trace s')) + mset (remaining s') = M" .
  have "errCount s' =
         of_nat (length (rejected (trace s')) + length (filter (corrupted E) (opened (trace s'))))"
    using assms(3) by (simp add: tr ec)
  with m show ?thesis by simp
next
  case Check
  with assms show ?thesis
    by (auto simp add: check_count_def opened_def rejected_def split: if_splits)
next
  case Report
  with assms show ?thesis
    by (auto simp add: report_count_def opened_def rejected_def split: if_splits)
next
  case Release
  with assms show ?thesis
    by (auto simp add: release_pool_def opened_def rejected_def split: phase.splits)
qed

lemma exec_tally:
  assumes "exec E sched s = Some s'"
    and "mset (opened (trace s)) + mset (map FilePath (inflight s))
         + mset (rejected (trace s)) + mset (remaining s) = M"
    and "errCount s =
         of_nat (length (rejected (trace s)) + length (filter (corrupted E) (opened (trace s))))"
  shows "mset (opened (trace s')) + mset (map FilePath (inflight s'))
         + mset (rejected (trace s')) + mset (remaining s') = M \<and>
         errCount s' =
         of_nat (length (rejected (trace s')) + length (filter (corrupted E) (opened (trace s'))))"
  using assms
proof (induction sched arbitrary: s)
  case Nil
  then show ?case by simp
next
  case (Cons a sched)
  then obtain s1 where a: "step E a s = Some s1" and r: "exec E sched s1 = Some s'"
    by (auto split: option.splits)
  from step_tally [OF a Cons.prems(2) Cons.prems(3)]
  have "mset (opened (trace s1)) + mset (map FilePath (inflight s1))
         + mset (rejected (trace s1)) + mset (remaining s1) = M"
    and "errCount s1 =
         of_nat (length (rejected (trace s1)) + length (filter (corrupted E) (opened (trace s1))))"
    by simp_all
  with r show ?case by (rule Cons.IH)
qed

text \<open>
  Once the loop is over and no task is running, nothing but the coordinator's own last
  steps can happen, and the counter stays as it is.
\<close>


lemma step_quiet:
  assumes "step E a s = Some s'"
    and "remaining s = []" and "inflight s = []" and "errCount s = c"
    and "phase s = Submitting \<or> phase s = Checked \<and> c \<noteq> 0
         \<or> phase s = Releasing (verdict c) \<or> phase s = Returned (verdict c)"
  shows "remaining s' = [] \<and> inflight s' = [] \<and> errCount s' = c \<and>
         (phase s' = Submitting \<or> phase s' = Checked \<and> c \<noteq> 0
          \<or> phase s' = Releasing (verdict c) \<or> phase s' = Returned (verdict c))"
proof (cases a)
  case Accept
  with assms show ?thesis by (simp add: submit_ok_def)
next
  case (Reject e)
  with assms show ?thesis by (simp add: submit_failed_def)
next
  case (Finish i)
  with assms show ?thesis by (simp add: finish_def)
next
  case Check
  with assms show ?thesis
    by (auto simp add: check_count_def verdict_def word_gt_0 split: if_splits)
next
  case Report
  with assms show ?thesis
    by (auto simp add: report_count_def verdict_def split: if_splits)
next
  case Release
  with assms show ?thesis
    by (auto simp add: release_pool_def split: phase.splits)
qed

lemma exec_quiet:
  assumes "exec E sched s = Some s'"
    and "remaining s = []" and "inflight s = []" and "errCount s = c"
    and "phase s = Submitting \<or> phase s = Checked \<and> c \<noteq> 0
         \<or> phase s = Releasing (verdict c) \<or> phase s = Returned (verdict c)"
  shows "phase s' = Submitting \<or> phase s' = Checked \<and> c \<noteq> 0
          \<or> phase s' = Releasing (verdict c) \<or> phase s' = Returned (verdict c)"
  using assms
proof (induction sched arbitrary: s)
  case Nil
  then show ?case by simp
next
  case (Cons a sched)
  then obtain s1 where a: "step E a s = Some s1" and r: "exec E sched s1 = Some s'"
    by (auto split: option.splits)
  from step_quiet [OF a Cons.prems(2-5)]
  have "remaining s1 = []" "inflight s1 = []" "errCount s1 = c"
    "phase s1 = Submitting \<or> phase s1 = Checked \<and> c \<noteq> 0
          \<or> phase s1 = Releasing (verdict c) \<or> phase s1 = Returned (verdict c)"
    by simp_all
  with r show ?case by (rule Cons.IH)
qed

lemma filter_length_mset:
  assumes "mset xs = mset ys"
  shows "length (filter P xs) = length (filter P ys)"
proof -
  have "size (filter_mset P (mset xs)) = size (filter_mset P (mset ys))"
    using assms by simp
  then show ?thesis by (simp only: mset_filter [symmetric] size_mset)
qed

lemma word32_of_nat_small:
  assumes "n < 2 ^ 32"
  shows "unat (of_nat n :: 32 word) = n"
  using assms by (simp add: of_nat_inverse [OF refl])

lemma reported_verdict:
  assumes "reported s = Some r"
    and "phase s = Submitting \<or> phase s = Checked \<and> c \<noteq> 0
         \<or> phase s = Releasing (verdict c) \<or> phase s = Returned (verdict c)"
  shows "r = verdict c"
  using assms by (auto simp add: reported_def)

lemma word32_of_nat_zero:
  assumes "unat (of_nat n :: 32 word) = n"
  shows "(of_nat n :: 32 word) = 0 \<longleftrightarrow> n = 0"
proof
  assume "(of_nat n :: 32 word) = 0"
  then have "unat (of_nat n :: 32 word) = unat (0 :: 32 word)"
    by (rule arg_cong)
  with assms show "n = 0"
    by (simp only: unat_0)
next
  assume "n = 0"
  then show "(of_nat n :: 32 word) = 0"
    by simp
qed

text \<open>The coordinator's last steps are always possible once the loop is over.\<close>

lemma loop_over_reports:
  assumes "phase s = Submitting" and "remaining s = []"
  shows "map_option reported
           (exec E (if errCount s = 0 then [Check, Release] else [Check, Report, Release]) s) =
         Some (Some (verdict (errCount s)))"
  using assms
  by (simp add: check_count_def report_count_def release_pool_def reported_def verdict_def
        word_gt_0)

text \<open>
  What the counting does when nothing races with it. Take a run over the discovered
  \<open>files\<close>, fewer than \<open>2 ^ 32\<close> of them, in which no submission was rejected, and a
  point of it where the loop is over and no task is running any more while the counter
  has not been read yet. Whatever the pool size and however the run goes on, what the
  coordinator reports is the number of corrupted files, and its own last steps from that
  point do report it. The source has no statement that brings the coordinator to such a
  point before line 106.
\<close>

lemma tally_after_quiescence:
  assumes "findGzFiles E inputDir = (files, None)" and "newPool E maxWorkers = None"
    and "concurrentDecompressMultipleFiles E inputDir outDir maxWorkers sched = Some s"
    and "phase s = Submitting" and "remaining s = []" and "inflight s = []"
    and "rejected (trace s) = []"
    and "length files < 2 ^ 32"
    and "exec E rest s = Some s'" and "reported s' = Some r"
  shows "r = (if length (filter (corrupted E) files) = 0 then None
              else Some (Encountered (of_nat (length (filter (corrupted E) files))))) \<and>
         unat (of_nat (length (filter (corrupted E) files)) :: 32 word) =
           length (filter (corrupted E) files) \<and>
         map_option reported
           (exec E (if length (filter (corrupted E) files) = 0 then [Check, Release]
                    else [Check, Report, Release]) s) =
           Some (Some (if length (filter (corrupted E) files) = 0 then None
                       else Some (Encountered (of_nat (length (filter (corrupted E) files))))))"
proof -
  let ?s0 = "coordinator_start E inputDir outDir maxWorkers"
  let ?F = "length (filter (corrupted E) files)"
  have s0: "?s0 = \<lparr>phase = Submitting, outputDir = outDir, capacity = maxWorkers,
                    remaining = files, inflight = [], errCount = 0,
                    trace = [EvWalk inputDir, EvNewPool maxWorkers]\<rparr>"
    using assms(1,2) by (rule coordinator_start_ok)
  have run: "exec E sched ?s0 = Some s"
    using assms(3) by (simp add: concurrentDecompressMultipleFiles_def)
  have m0: "mset (opened (trace ?s0)) + mset (map FilePath (inflight ?s0))
            + mset (rejected (trace ?s0)) + mset (remaining ?s0) = mset files"
    by (simp add: s0 opened_def rejected_def)
  have c0: "errCount ?s0 = of_nat (length (rejected (trace ?s0))
              + length (filter (corrupted E) (opened (trace ?s0))))"
    by (simp add: s0 opened_def rejected_def)
  from exec_tally [OF run m0 c0]
  have m: "mset (opened (trace s)) + mset (map FilePath (inflight s))
            + mset (rejected (trace s)) + mset (remaining s) = mset files"
    and c: "errCount s = of_nat (length (rejected (trace s))
              + length (filter (corrupted E) (opened (trace s))))"
    by simp_all
  from m assms(5-7) have "mset (opened (trace s)) = mset files"
    by simp
  then have "length (filter (corrupted E) (opened (trace s))) = ?F"
    by (rule filter_length_mset)
  with c assms(7) have cnt: "errCount s = of_nat ?F"
    by simp
  have small: "?F < 2 ^ 32"
    using assms(8) length_filter_le [of "corrupted E" files] by (rule le_less_trans [rotated])
  then have u: "unat (of_nat ?F :: 32 word) = ?F"
    by (rule word32_of_nat_small)
  have z: "(of_nat ?F :: 32 word) = 0 \<longleftrightarrow> ?F = 0"
    using u by (rule word32_of_nat_zero)
  have "phase s = Submitting \<or> phase s = Checked \<and> (of_nat ?F :: 32 word) \<noteq> 0
          \<or> phase s = Releasing (verdict (of_nat ?F))
          \<or> phase s = Returned (verdict (of_nat ?F))"
    using assms(4) by (rule disjI1)
  with assms(9) assms(5) assms(6) cnt
  have "phase s' = Submitting \<or> phase s' = Checked \<and> (of_nat ?F :: 32 word) \<noteq> 0
          \<or> phase s' = Releasing (verdict (of_nat ?F))
          \<or> phase s' = Returned (verdict (of_nat ?F))"
    by (rule exec_quiet)
  with assms(10) have "r = verdict (of_nat ?F)"
    by (rule reported_verdict)
  then have res: "r = (if ?F = 0 then None else Some (Encountered (of_nat ?F)))"
    unfolding verdict_def z .
  have "map_option reported
          (exec E (if (of_nat ?F :: 32 word) = 0 then [Check, Release]
                   else [Check, Report, Release]) s) =
        Some (Some (verdict (of_nat ?F)))"
    using loop_over_reports [OF assms(4) assms(5), of E] by (simp only: cnt)
  then have ex: "map_option reported
          (exec E (if ?F = 0 then [Check, Release] else [Check, Report, Release]) s) =
        Some (Some (if ?F = 0 then None else Some (Encountered (of_nat ?F))))"
    unfolding verdict_def z .
  from res u ex show ?thesis
    by (intro conjI)
qed

section \<open>Claims on processGzFile\<close>

text \<open>
  Claim C3. A file that opens, whose gzip header is accepted and whose stream decodes
  into the values \<open>bs\<close> without an error is processed without an error, and the
  sink is called once for each record of \<open>bs\<close>, in stream order: as many calls as
  there are records.
\<close>

theorem processGzFile_sink_in_order:
  assumes "osOpen E (FilePath t) = Inr f" and "gzheader f = None"
    and "jsonstream f = map Value bs"
  shows "fst (processGzFile E t) = None \<and>
         sink_calls (snd (processGzFile E t)) =
           map (\<lambda>it. EvLog (LogItem (DOI it) (Title it) (ReferencesCount it) (FilePath t)))
             (records_of bs) \<and>
         length (sink_calls (snd (processGzFile E t))) = length (records_of bs)"
proof -
  have "sink_calls (snd (processGzFile E t)) =
          map (\<lambda>it. EvLog (LogItem (DOI it) (Title it) (ReferencesCount it) (FilePath t)))
            (records_of bs)"
    using sink_calls_batches [of "FilePath t" bs]
    by (simp add: processGzFile_values [OF assms] sink_calls_def)
  then show ?thesis by (simp add: processGzFile_values [OF assms])
qed

text \<open>
  C3 on \<open>in/a.gz\<close>: three records in two values, three calls in order.
\<close>

theorem processGzFile_sink_in_order_witness:
  "osOpen ex_env (FilePath (ex_task ''in/a.gz'')) = Inr ex_good \<and>
   gzheader ex_good = None \<and>
   jsonstream ex_good =
     map Value [\<lparr>Items = [ex_item ''1'', ex_item ''2'']\<rparr>, \<lparr>Items = [ex_item ''3'']\<rparr>] \<and>
   fst (processGzFile ex_env (ex_task ''in/a.gz'')) = None \<and>
   sink_calls (snd (processGzFile ex_env (ex_task ''in/a.gz''))) =
     [EvLog (LogItem ''1'' [''t''] 7 ''in/a.gz''), EvLog (LogItem ''2'' [''t''] 7 ''in/a.gz''),
      EvLog (LogItem ''3'' [''t''] 7 ''in/a.gz'')] \<and>
   length (sink_calls (snd (processGzFile ex_env (ex_task ''in/a.gz'')))) = 3"
proof -
  have h1: "osOpen ex_env (FilePath (ex_task ''in/a.gz'')) = Inr ex_good"
    by (simp add: ex_env_def ex_open_def ex_task_def)
  have h2: "gzheader ex_good = None"
    by (simp add: ex_good_def)
  have h3: "jsonstream ex_good =
      map Value [\<lparr>Items = [ex_item ''1'', ex_item ''2'']\<rparr>, \<lparr>Items = [ex_item ''3'']\<rparr>]"
    by (simp add: ex_good_def)
  show ?thesis
    using processGzFile_sink_in_order [OF h1 h2 h3] h1 h2 h3
    by (simp add: records_of_def ex_item_def ex_task_def)
qed

text \<open>
  Claim C6. When the values of a valid stream hold no record at all (no value, or values
  with empty \<open>Items\<close>), the sink is not called, \<open>processGzFile\<close> returns nil, and
  the task leaves the counter as it was and logs no error.
\<close>

theorem processGzFile_zero_records:
  assumes "osOpen E (FilePath t) = Inr f" and "gzheader f = None"
    and "jsonstream f = map Value bs" and "records_of bs = []"
  shows "fst (processGzFile E t) = None \<and>
         sink_calls (snd (processGzFile E t)) = [] \<and>
         errCount (runTask E t s) = errCount s \<and>
         trace (runTask E t s) = trace s @ snd (processGzFile E t)"
proof -
  have v: "processGzFile E t =
     (None, [EvOpen (FilePath t), EvGzip (FilePath t)]
            @ concat (map (\<lambda>b. EvDecode (FilePath t) # processCrossrefItem b (FilePath t)) bs)
            @ [EvDecode (FilePath t), EvGzipClose (FilePath t), EvFileClose (FilePath t)])"
    using assms(1-3) by (rule processGzFile_values)
  have "sink_calls (snd (processGzFile E t)) = []"
    using sink_calls_batches [of "FilePath t" bs] assms(4)
    by (simp add: v sink_calls_def)
  moreover have "runTask E t s = s\<lparr>trace := trace s @ snd (processGzFile E t)\<rparr>"
    by (simp add: runTask_def v)
  ultimately show ?thesis by (simp add: v)
qed

text \<open>
  C6 on \<open>in/b.gz\<close>: one value with no record.
\<close>

theorem processGzFile_zero_records_witness:
  "osOpen ex_env (FilePath (ex_task ''in/b.gz'')) = Inr ex_empty \<and>
   gzheader ex_empty = None \<and>
   jsonstream ex_empty = map Value [\<lparr>Items = []\<rparr>] \<and>
   records_of [\<lparr>Items = []\<rparr>] = [] \<and>
   fst (processGzFile ex_env (ex_task ''in/b.gz'')) = None \<and>
   sink_calls (snd (processGzFile ex_env (ex_task ''in/b.gz''))) = [] \<and>
   errCount (runTask ex_env (ex_task ''in/b.gz'') ex_state) = 0"
proof -
  have h1: "osOpen ex_env (FilePath (ex_task ''in/b.gz'')) = Inr ex_empty"
    by (simp add: ex_env_def ex_open_def ex_task_def)
  have h2: "gzheader ex_empty = None"
    by (simp add: ex_empty_def)
  have h3: "jsonstream ex_empty = map Value [\<lparr>Items = []\<rparr>]"
    by (simp add: ex_empty_def)
  have h4: "records_of [\<lparr>Items = []\<rparr>] = []"
    by (simp add: records_of_def)
  show ?thesis
    using processGzFile_zero_records [OF h1 h2 h3 h4, of ex_state] h1 h2 h3 h4
    by (simp add: ex_state_def)
qed

text \<open>
  Claim C7. When \<open>gzip.NewReader\<close> refuses the header, \<open>processGzFile\<close> returns
  that error wrapped with the path of the file; the file was opened and is closed, no
  \<open>Decode\<close> was called and the sink was not called.
\<close>

theorem processGzFile_bad_header:
  assumes "osOpen E (FilePath t) = Inr f" and "gzheader f = Some e"
  shows "processGzFile E t =
           (Some (GzipFailed e (FilePath t)),
            [EvOpen (FilePath t), EvGzip (FilePath t), EvFileClose (FilePath t)]) \<and>
         filter is_decode (snd (processGzFile E t)) = [] \<and>
         sink_calls (snd (processGzFile E t)) = []"
  using assms by (simp add: processGzFile_def gzipNewReader_def Let_def sink_calls_def)

text \<open>
  C7 on \<open>in/d.gz\<close>.
\<close>

theorem processGzFile_bad_header_witness:
  "osOpen ex_env (FilePath (ex_task ''in/d.gz'')) = Inr ex_badheader \<and>
   gzheader ex_badheader = Some ''gzip: invalid header'' \<and>
   processGzFile ex_env (ex_task ''in/d.gz'') =
     (Some (GzipFailed ''gzip: invalid header'' ''in/d.gz''),
      [EvOpen ''in/d.gz'', EvGzip ''in/d.gz'', EvFileClose ''in/d.gz''])"
proof -
  have h1: "osOpen ex_env (FilePath (ex_task ''in/d.gz'')) = Inr ex_badheader"
    by (simp add: ex_env_def ex_open_def ex_task_def)
  have h2: "gzheader ex_badheader = Some ''gzip: invalid header''"
    by (simp add: ex_badheader_def)
  show ?thesis
    using processGzFile_bad_header [OF h1 h2] h1 h2 by (simp add: ex_task_def)
qed

text \<open>
  Claim C8, amended. When a \<open>Decode\<close> fails after the values \<open>bs\<close> (a stream cut
  in the middle of a value is the case \<open>unexpected EOF\<close>), \<open>processGzFile\<close> returns
  the decode error wrapped with the path, and the task logs it and adds exactly one to
  the counter: the file counts as failed, never as a success. The records of \<open>bs\<close>
  have gone to the sink by then, in order, since each value is handed to the sink as soon
  as it is decoded; the value that was cut adds no record.
\<close>

theorem processGzFile_cut_stream:
  assumes "osOpen E (FilePath t) = Inr f" and "gzheader f = None"
    and "jsonstream f = map Value bs @ Failure e # rest"
  shows "fst (processGzFile E t) = Some (DecodeFailed e (FilePath t)) \<and>
         errCount (runTask E t s) = errCount s + 1 \<and>
         trace (runTask E t s) =
           trace s @ snd (processGzFile E t)
           @ [EvLog (LogErrorProcessing (FilePath t) (DecodeFailed e (FilePath t)))] \<and>
         sink_calls (snd (processGzFile E t)) =
           map (\<lambda>it. EvLog (LogItem (DOI it) (Title it) (ReferencesCount it) (FilePath t)))
             (records_of bs)"
proof -
  have v: "processGzFile E t =
     (Some (DecodeFailed e (FilePath t)),
      [EvOpen (FilePath t), EvGzip (FilePath t)]
      @ concat (map (\<lambda>b. EvDecode (FilePath t) # processCrossrefItem b (FilePath t)) bs)
      @ [EvDecode (FilePath t), EvGzipClose (FilePath t), EvFileClose (FilePath t)])"
    using assms by (rule processGzFile_failure)
  have "sink_calls (snd (processGzFile E t)) =
          map (\<lambda>it. EvLog (LogItem (DOI it) (Title it) (ReferencesCount it) (FilePath t)))
            (records_of bs)"
    using sink_calls_batches [of "FilePath t" bs] by (simp add: v sink_calls_def)
  moreover have "runTask E t s =
      s\<lparr>trace := trace s @ snd (processGzFile E t)
                 @ [EvLog (LogErrorProcessing (FilePath t) (DecodeFailed e (FilePath t)))],
        errCount := errCount s + 1\<rparr>"
    by (simp add: runTask_def v)
  ultimately show ?thesis by (simp add: v)
qed

text \<open>
  C8 amended, on \<open>in/c.gz\<close>: one value of one record, then the cut.
\<close>

theorem processGzFile_cut_stream_witness:
  "osOpen ex_env (FilePath (ex_task ''in/c.gz'')) = Inr ex_cut \<and>
   gzheader ex_cut = None \<and>
   jsonstream ex_cut = map Value [\<lparr>Items = [ex_item ''4'']\<rparr>] @ Failure ''unexpected EOF'' # [] \<and>
   fst (processGzFile ex_env (ex_task ''in/c.gz'')) =
     Some (DecodeFailed ''unexpected EOF'' ''in/c.gz'') \<and>
   errCount (runTask ex_env (ex_task ''in/c.gz'') ex_state) = 1 \<and>
   sink_calls (snd (processGzFile ex_env (ex_task ''in/c.gz''))) =
     [EvLog (LogItem ''4'' [''t''] 7 ''in/c.gz'')]"
proof -
  have h1: "osOpen ex_env (FilePath (ex_task ''in/c.gz'')) = Inr ex_cut"
    by (simp add: ex_env_def ex_open_def ex_task_def)
  have h2: "gzheader ex_cut = None"
    by (simp add: ex_cut_def)
  have h3: "jsonstream ex_cut =
      map Value [\<lparr>Items = [ex_item ''4'']\<rparr>] @ Failure ''unexpected EOF'' # []"
    by (simp add: ex_cut_def)
  show ?thesis
    using processGzFile_cut_stream [OF h1 h2 h3, of ex_state] h1 h2 h3
    by (simp add: records_of_def ex_item_def ex_task_def ex_state_def)
qed

text \<open>
  C8 as first stated does not hold: on \<open>in/c.gz\<close> the file fails and the record
  found before the cut has been written by the sink all the same.
\<close>

theorem cut_stream_reaches_sink:
  "fst (processGzFile ex_env (ex_task ''in/c.gz'')) =
     Some (DecodeFailed ''unexpected EOF'' ''in/c.gz'') \<and>
   sink_calls (snd (processGzFile ex_env (ex_task ''in/c.gz''))) =
     [EvLog (LogItem ''4'' [''t''] 7 ''in/c.gz'')]"
  by (simp add: processGzFile_def gzipNewReader_def Let_def sink_calls_def
        processCrossrefItem_def ex_env_def ex_open_def ex_cut_def ex_item_def ex_task_def)

section \<open>Claims on the coordinator\<close>

text \<open>
  Claim C1 fails on the code. Of the four files of \<open>in\<close> two are corrupted, and no
  submission is rejected. With one worker the pool takes the last file only when the
  third task has finished; the coordinator then reads the counter while the task of
  \<open>d.gz\<close> is still running, and reports 1 error. With four workers all four tasks can
  still be running at the read, and the coordinator reports nil. Nothing between the end
  of the loop and line 106 waits for the tasks (the defect of C2).
\<close>

theorem race_undercounts_corrupted_files:
  "findGzFiles ex_env ''in'' = ([''in/a.gz'', ''in/b.gz'', ''in/c.gz'', ''in/d.gz''], None) \<and>
   length (filter (corrupted ex_env) [''in/a.gz'', ''in/b.gz'', ''in/c.gz'', ''in/d.gz'']) = 2 \<and>
   map_option (\<lambda>s. (reported s, map FilePath (inflight s)))
     (concurrentDecompressMultipleFiles ex_env ''in'' ''out'' 1
        [Accept, Finish 0, Accept, Finish 0, Accept, Finish 0, Accept, Check, Report, Release]) =
     Some (Some (Some (Encountered 1)), [''in/d.gz'']) \<and>
   map_option (\<lambda>s. (reported s, map FilePath (inflight s)))
     (concurrentDecompressMultipleFiles ex_env ''in'' ''out'' 4
        [Accept, Accept, Accept, Accept, Check, Release]) =
     Some (Some None, [''in/a.gz'', ''in/b.gz'', ''in/c.gz'', ''in/d.gz''])"
proof -
  have h1: "findGzFiles ex_env ''in'' =
      ([''in/a.gz'', ''in/b.gz'', ''in/c.gz'', ''in/d.gz''], None)"
    by (simp add: findGzFiles_def Ext_def ex_env_def ex_walk_def ex_entry_def)
  have p1: "newPool ex_env 1 = None" and p4: "newPool ex_env 4 = None"
    by (simp_all add: ex_env_def ex_newPool_def)
  have op: "osOpen ex_env = ex_open"
    by (simp add: ex_env_def)
  have f: "length (filter (corrupted ex_env)
      [''in/a.gz'', ''in/b.gz'', ''in/c.gz'', ''in/d.gz'']) = 2"
    by (simp add: corrupted_def op ex_open_def ex_good_def ex_empty_def ex_cut_def
          ex_badheader_def)
  have r1: "map_option (\<lambda>s. (reported s, map FilePath (inflight s)))
     (concurrentDecompressMultipleFiles ex_env ''in'' ''out'' 1
        [Accept, Finish 0, Accept, Finish 0, Accept, Finish 0, Accept, Check, Report, Release]) =
     Some (Some (Some (Encountered 1)), [''in/d.gz''])"
    by (simp add: concurrentDecompressMultipleFiles_def coordinator_start_ok [OF h1 p1]
          submit_ok_def finish_def runTask_def check_count_def report_count_def
          release_pool_def reported_def processGzFile_def gzipNewReader_def Let_def op
          ex_open_def ex_good_def ex_empty_def ex_cut_def)
  have r4: "map_option (\<lambda>s. (reported s, map FilePath (inflight s)))
     (concurrentDecompressMultipleFiles ex_env ''in'' ''out'' 4
        [Accept, Accept, Accept, Accept, Check, Release]) =
     Some (Some None, [''in/a.gz'', ''in/b.gz'', ''in/c.gz'', ''in/d.gz''])"
    by (simp add: concurrentDecompressMultipleFiles_def coordinator_start_ok [OF h1 p4]
          submit_ok_def check_count_def release_pool_def reported_def)
  from h1 f r1 r4 show ?thesis by simp
qed

text \<open>
  Claim C2 fails on the code. The counter is read (lines 106 and 107) before the
  deferred \<open>pool.Release()\<close> runs, and nothing waits for the tasks in between. In the
  run below the only file is corrupted; after \<open>Accept\<close> and \<open>Check\<close> the task is
  still with its worker, the load has read 0 and the return value is nil. When the task
  finishes after the return, the counter becomes 1, which nobody reads.
\<close>

theorem counter_read_while_task_runs:
  "concurrentDecompressMultipleFiles ex_env ''bad'' ''out'' 1 [Accept, Check] =
     Some \<lparr>phase = Releasing None, outputDir = ''out'', capacity = 1, remaining = [],
           inflight = [\<lparr>FilePath = ''bad/c.gz'', OutputDir = ''out''\<rparr>], errCount = 0,
           trace = [EvWalk ''bad'', EvNewPool 1, EvLog (LogProcessing ''bad/c.gz''),
                    EvSubmit ''bad/c.gz'', EvLoad 0]\<rparr> \<and>
   corrupted ex_env ''bad/c.gz'' \<and>
   map_option (\<lambda>s. (phase s, errCount s))
     (concurrentDecompressMultipleFiles ex_env ''bad'' ''out'' 1
        [Accept, Check, Release, Finish 0]) = Some (Returned None, 1)"
proof -
  have h1: "findGzFiles ex_env ''bad'' = ([''bad/c.gz''], None)"
    by (simp add: findGzFiles_def Ext_def ex_env_def ex_walk_def ex_entry_def)
  have h2: "newPool ex_env 1 = None"
    by (simp add: ex_env_def ex_newPool_def)
  have op: "osOpen ex_env = ex_open"
    by (simp add: ex_env_def)
  have a: "concurrentDecompressMultipleFiles ex_env ''bad'' ''out'' 1 [Accept, Check] =
     Some \<lparr>phase = Releasing None, outputDir = ''out'', capacity = 1, remaining = [],
           inflight = [\<lparr>FilePath = ''bad/c.gz'', OutputDir = ''out''\<rparr>], errCount = 0,
           trace = [EvWalk ''bad'', EvNewPool 1, EvLog (LogProcessing ''bad/c.gz''),
                    EvSubmit ''bad/c.gz'', EvLoad 0]\<rparr>"
    by (simp add: concurrentDecompressMultipleFiles_def coordinator_start_ok [OF h1 h2]
          submit_ok_def check_count_def)
  have b: "corrupted ex_env ''bad/c.gz''"
    by (simp add: corrupted_def ex_env_def ex_open_def ex_cut_def)
  have c: "map_option (\<lambda>s. (phase s, errCount s))
     (concurrentDecompressMultipleFiles ex_env ''bad'' ''out'' 1
        [Accept, Check, Release, Finish 0]) = Some (Returned None, 1)"
    by (simp add: concurrentDecompressMultipleFiles_def coordinator_start_ok [OF h1 h2]
          submit_ok_def check_count_def release_pool_def finish_def runTask_def
          processGzFile_def gzipNewReader_def Let_def op ex_open_def ex_cut_def)
  from a b c show ?thesis by simp
qed

text \<open>
  Claim C4. When discovery fails, the coordinator logs the failure and returns the
  wrapped discovery error at once: the only events are the walk and the log line, no
  pool is created, the counter is 0, and no step of any kind can follow (no submission,
  no task, no file opened).
\<close>

theorem discovery_failure_stops_run:
  assumes "findGzFiles E inputDir = (files, Some e)"
  shows "concurrentDecompressMultipleFiles E inputDir outDir maxWorkers sched =
           (if sched = []
            then Some \<lparr>phase = Returned (Some (FindFailed e)), outputDir = outDir,
                       capacity = maxWorkers, remaining = [], inflight = [], errCount = 0,
                       trace = [EvWalk inputDir, EvLog (LogFindFailed e)]\<rparr>
            else None)"
proof -
  let ?s = "\<lparr>phase = Returned (Some (FindFailed e)), outputDir = outDir,
             capacity = maxWorkers, remaining = [], inflight = [], errCount = 0,
             trace = [EvWalk inputDir, EvLog (LogFindFailed e)]\<rparr>"
  have "coordinator_start E inputDir outDir maxWorkers = ?s"
    using assms by (simp add: coordinator_start_def)
  moreover have "exec E sched ?s = (if sched = [] then Some ?s else None)"
    by (rule returned_run) simp_all
  ultimately show ?thesis
    by (simp only: concurrentDecompressMultipleFiles_def)
qed

text \<open>
  C4 on a root that cannot be walked.
\<close>

theorem discovery_failure_stops_run_witness:
  "findGzFiles ex_env ''nowhere'' = ([], Some ''no such file or directory'') \<and>
   concurrentDecompressMultipleFiles ex_env ''nowhere'' ''out'' 4 [] =
     Some \<lparr>phase = Returned (Some (FindFailed ''no such file or directory'')),
           outputDir = ''out'', capacity = 4, remaining = [], inflight = [], errCount = 0,
           trace = [EvWalk ''nowhere'',
                    EvLog (LogFindFailed ''no such file or directory'')]\<rparr> \<and>
   concurrentDecompressMultipleFiles ex_env ''nowhere'' ''out'' 4 [Accept] = None"
proof -
  have h: "findGzFiles ex_env ''nowhere'' = ([], Some ''no such file or directory'')"
    by (simp add: findGzFiles_def ex_env_def ex_walk_def)
  show ?thesis
    using discovery_failure_stops_run [OF h, of "''out''" 4 "[]"]
      discovery_failure_stops_run [OF h, of "''out''" 4 "[Accept]"] h
    by simp
qed

text \<open>
  Claim C5. At any point of a run where the loop is about to submit \<open>file\<close>, a
  \<open>Submit\<close> that fails adds exactly one to the counter and logs the failure; the task
  is not handed to a worker (the running tasks are unchanged), so it cannot add a second
  one. The loop goes on with the files after it, and no file was dropped before: the
  files submitted so far, this one and the ones still to come are the discovered files in
  order.
\<close>

theorem submit_failure_is_counted_and_loop_goes_on:
  assumes "findGzFiles E inputDir = (files, None)" and "newPool E maxWorkers = None"
    and "concurrentDecompressMultipleFiles E inputDir outDir maxWorkers sched = Some s"
    and "phase s = Submitting" and "remaining s = file # rest"
  shows "concurrentDecompressMultipleFiles E inputDir outDir maxWorkers (sched @ [Reject e]) =
           Some (s\<lparr>remaining := rest,
                   trace := trace s @ [EvLog (LogProcessing file), EvSubmit file,
                                       EvLog (LogSubmitFailed file e)],
                   errCount := errCount s + 1\<rparr>) \<and>
         submitted (trace s) @ file # rest = files"
proof -
  let ?s0 = "coordinator_start E inputDir outDir maxWorkers"
  have run: "exec E sched ?s0 = Some s"
    using assms(3) by (simp add: concurrentDecompressMultipleFiles_def)
  have "step E (Reject e) s =
          Some (s\<lparr>remaining := rest,
                  trace := trace s @ [EvLog (LogProcessing file), EvSubmit file,
                                      EvLog (LogSubmitFailed file e)],
                  errCount := errCount s + 1\<rparr>)"
    using assms(4,5) by (simp add: submit_failed_def)
  then have a: "concurrentDecompressMultipleFiles E inputDir outDir maxWorkers
                  (sched @ [Reject e]) =
          Some (s\<lparr>remaining := rest,
                  trace := trace s @ [EvLog (LogProcessing file), EvSubmit file,
                                      EvLog (LogSubmitFailed file e)],
                  errCount := errCount s + 1\<rparr>)"
    using run by (simp add: concurrentDecompressMultipleFiles_def exec_append)
  have "submitted (trace s) @ remaining s = submitted (trace ?s0) @ remaining ?s0"
    using run by (rule exec_order)
  then have b: "submitted (trace s) @ file # rest = files"
    using assms(5) by (simp add: coordinator_start_ok [OF assms(1,2)] submitted_def)
  from a b show ?thesis by (rule conjI)
qed

text \<open>
  C5 on the files of \<open>in\<close>: \<open>a.gz\<close> accepted, \<open>b.gz\<close> rejected, the loop
  stands before \<open>c.gz\<close>.
\<close>

theorem submit_failure_is_counted_and_loop_goes_on_witness:
  "findGzFiles ex_env ''in'' = ([''in/a.gz'', ''in/b.gz'', ''in/c.gz'', ''in/d.gz''], None) \<and>
   newPool ex_env 2 = None \<and>
   concurrentDecompressMultipleFiles ex_env ''in'' ''out'' 2 [Accept] = Some ex_looping \<and>
   phase ex_looping = Submitting \<and>
   remaining ex_looping = ''in/b.gz'' # [''in/c.gz'', ''in/d.gz''] \<and>
   concurrentDecompressMultipleFiles ex_env ''in'' ''out'' 2 ([Accept] @ [Reject ''pool closed'']) =
     Some \<lparr>phase = Submitting, outputDir = ''out'', capacity = 2,
           remaining = [''in/c.gz'', ''in/d.gz''],
           inflight = [\<lparr>FilePath = ''in/a.gz'', OutputDir = ''out''\<rparr>], errCount = 1,
           trace = [EvWalk ''in'', EvNewPool 2,
                    EvLog (LogProcessing ''in/a.gz''), EvSubmit ''in/a.gz'',
                    EvLog (LogProcessing ''in/b.gz''), EvSubmit ''in/b.gz'',
                    EvLog (LogSubmitFailed ''in/b.gz'' ''pool closed'')]\<rparr> \<and>
   submitted (trace ex_looping) @ ''in/b.gz'' # [''in/c.gz'', ''in/d.gz''] =
     [''in/a.gz'', ''in/b.gz'', ''in/c.gz'', ''in/d.gz'']"
proof -
  have h1: "findGzFiles ex_env ''in'' =
      ([''in/a.gz'', ''in/b.gz'', ''in/c.gz'', ''in/d.gz''], None)"
    by (simp add: findGzFiles_def Ext_def ex_env_def ex_walk_def ex_entry_def)
  have h2: "newPool ex_env 2 = None"
    by (simp add: ex_env_def ex_newPool_def)
  have h3: "concurrentDecompressMultipleFiles ex_env ''in'' ''out'' 2 [Accept] = Some ex_looping"
    by (simp add: concurrentDecompressMultipleFiles_def coordinator_start_ok [OF h1 h2]
          submit_ok_def ex_looping_def)
  have h4: "phase ex_looping = Submitting"
    by (simp add: ex_looping_def)
  have h5: "remaining ex_looping = ''in/b.gz'' # [''in/c.gz'', ''in/d.gz'']"
    by (simp add: ex_looping_def)
  show ?thesis
    using submit_failure_is_counted_and_loop_goes_on [OF h1 h2 h3 h4 h5, of "''pool closed''"]
      h1 h2 h3 h4 h5
    by (simp add: ex_looping_def)
qed

text \<open>
  Claim C9. In every state of every run the counter is at most the number of
  \<open>Submit\<close> calls made so far. More precisely the counter plus the number of tasks
  still running is at most that number: a file adds at most one, through a failed
  submission or through its task, never both.
\<close>

theorem errCount_le_submitted:
  assumes "concurrentDecompressMultipleFiles E inputDir outDir maxWorkers sched = Some s"
  shows "unat (errCount s) + length (inflight s) \<le> length (submitted (trace s)) \<and>
         unat (errCount s) \<le> length (submitted (trace s))"
proof -
  let ?s0 = "coordinator_start E inputDir outDir maxWorkers"
  have run: "exec E sched ?s0 = Some s"
    using assms by (simp add: concurrentDecompressMultipleFiles_def)
  have "unat (errCount ?s0) + length (inflight ?s0) \<le> length (submitted (trace ?s0))"
    using coordinator_start_zero [of E inputDir outDir maxWorkers] by simp
  with run have "unat (errCount s) + length (inflight s) \<le> length (submitted (trace s))"
    by (rule exec_bound)
  then show ?thesis by simp
qed

text \<open>
  C9 on a run with one rejected and one accepted submission: both sides are 2.
\<close>

theorem errCount_le_submitted_witness:
  "concurrentDecompressMultipleFiles ex_env ''in'' ''out'' 2 [Reject ''pool closed'', Accept] =
     Some ex_counted \<and>
   unat (errCount ex_counted) + length (inflight ex_counted) = 2 \<and>
   length (submitted (trace ex_counted)) = 2 \<and>
   unat (errCount ex_counted) + length (inflight ex_counted)
     \<le> length (submitted (trace ex_counted)) \<and>
   unat (errCount ex_counted) \<le> length (submitted (trace ex_counted))"
proof -
  have h1: "findGzFiles ex_env ''in'' =
      ([''in/a.gz'', ''in/b.gz'', ''in/c.gz'', ''in/d.gz''], None)"
    by (simp add: findGzFiles_def Ext_def ex_env_def ex_walk_def ex_entry_def)
  have h2: "newPool ex_env 2 = None"
    by (simp add: ex_env_def ex_newPool_def)
  have h3: "concurrentDecompressMultipleFiles ex_env ''in'' ''out'' 2
      [Reject ''pool closed'', Accept] = Some ex_counted"
    by (simp add: concurrentDecompressMultipleFiles_def coordinator_start_ok [OF h1 h2]
          submit_ok_def submit_failed_def ex_counted_def)
  have h4: "unat (errCount ex_counted) + length (inflight ex_counted) = 2"
    "length (submitted (trace ex_counted)) = 2"
    by (simp_all add: ex_counted_def submitted_def)
  show ?thesis
    using errCount_le_submitted [OF h3] h3 h4 by simp
qed

text \<open>
  Claim C10. When discovery succeeds and the pool cannot be created, the coordinator
  returns the wrapped pool error at once: the counter is 0, nothing is logged, no
  \<open>Release\<close> is deferred, and no step of any kind can follow.
\<close>

theorem pool_failure_stops_run:
  assumes "findGzFiles E inputDir = (files, None)" and "newPool E maxWorkers = Some e"
  shows "concurrentDecompressMultipleFiles E inputDir outDir maxWorkers sched =
           (if sched = []
            then Some \<lparr>phase = Returned (Some (PoolFailed e)), outputDir = outDir,
                       capacity = maxWorkers, remaining = [], inflight = [], errCount = 0,
                       trace = [EvWalk inputDir, EvNewPool maxWorkers]\<rparr>
            else None)"
proof -
  let ?s = "\<lparr>phase = Returned (Some (PoolFailed e)), outputDir = outDir,
             capacity = maxWorkers, remaining = [], inflight = [], errCount = 0,
             trace = [EvWalk inputDir, EvNewPool maxWorkers]\<rparr>"
  have "coordinator_start E inputDir outDir maxWorkers = ?s"
    using assms by (simp add: coordinator_start_def)
  moreover have "exec E sched ?s = (if sched = [] then Some ?s else None)"
    by (rule returned_run) simp_all
  ultimately show ?thesis
    by (simp only: concurrentDecompressMultipleFiles_def)
qed

text \<open>
  C10 on a pool of size 0.
\<close>

theorem pool_failure_stops_run_witness:
  "findGzFiles ex_env ''in'' = ([''in/a.gz'', ''in/b.gz'', ''in/c.gz'', ''in/d.gz''], None) \<and>
   newPool ex_env 0 = Some ''invalid pool size'' \<and>
   concurrentDecompressMultipleFiles ex_env ''in'' ''out'' 0 [] =
     Some \<lparr>phase = Returned (Some (PoolFailed ''invalid pool size'')),
           outputDir = ''out'', capacity = 0, remaining = [], inflight = [], errCount = 0,
           trace = [EvWalk ''in'', EvNewPool 0]\<rparr> \<and>
   concurrentDecompressMultipleFiles ex_env ''in'' ''out'' 0 [Accept] = None"
proof -
  have h1: "findGzFiles ex_env ''in'' =
      ([''in/a.gz'', ''in/b.gz'', ''in/c.gz'', ''in/d.gz''], None)"
    by (simp add: findGzFiles_def Ext_def ex_env_def ex_walk_def ex_entry_def)
  have h2: "newPool ex_env 0 = Some ''invalid pool size''"
    by (simp add: ex_env_def ex_newPool_def)
  show ?thesis
    using pool_failure_stops_run [OF h1 h2, of "''out''" "[]"]
      pool_failure_stops_run [OF h1 h2, of "''out''" "[Accept]"] h1 h2
    by simp
qed

end
